theory Spec2Isabelle
  imports Complex_Main "HOL-Library.Multiset" "HOL-Library.Log_Nat"
begin

section \<open>The decision stump of IMLearn/learners/classifiers/decision\_stump.py\<close>

text \<open>
  The class \<^verbatim>\<open>DecisionStump\<close> holds three fitted attributes and has three methods of
  interest: \<^verbatim>\<open>_find_threshold\<close>, \<^verbatim>\<open>_fit\<close> and \<^verbatim>\<open>_predict\<close>.

  Modelling decisions, all of them visible in the definitions below:
  \<^item> a numpy float is an exact \<^typ>\<open>real\<close>, and NaN is outside the model. The two
    infinities that the code uses (\<^verbatim>\<open>-np.inf\<close>, \<^verbatim>\<open>np.inf\<close>) are constructors of
    \<open>xreal\<close>. The functions without suffix compute exactly; the functions with the suffix
    \<open>_f64\<close> are \<^verbatim>\<open>_find_threshold\<close> once more, with every arithmetic operation rounded
    to double precision as numpy does it;
  \<^item> a one-dimensional array is a list; a two-dimensional array of shape \<open>(n, d)\<close> is
    the number \<open>d\<close> of columns with the list of its \<open>n\<close> rows;
  \<^item> an exception is a value \<open>Inl e\<close> of the result type;
  \<^item> \<^verbatim>\<open>argsort\<close> is called with numpy's default kind, which does not promise an order
    among equal keys, so the sorting routine is a parameter \<open>srt\<close> of the model; the
    stable insertion sort \<open>sort_key fst\<close> is the instance used for evaluation.
\<close>

subsection \<open>Values\<close>

datatype py_error = ValueError | IndexError | TypeError | NotANumber

datatype xreal = NegInf | Fin real | PosInf

text \<open>\<^verbatim>\<open>x >= thr\<close> for a finite \<open>x\<close> and a threshold that may be infinite.\<close>

fun ge_thr :: "real \<Rightarrow> xreal \<Rightarrow> bool" where
  "ge_thr x NegInf = True"
| "ge_thr x (Fin t) = (t \<le> x)"
| "ge_thr x PosInf = False"

text \<open>\<^verbatim>\<open>loss < best_loss\<close> for a finite \<open>loss\<close>; \<open>best_loss\<close> starts as \<^verbatim>\<open>np.inf\<close>.\<close>

fun lt_best :: "real \<Rightarrow> xreal \<Rightarrow> bool" where
  "lt_best x NegInf = False"
| "lt_best x (Fin b) = (x < b)"
| "lt_best x PosInf = True"

subsection \<open>\<^verbatim>\<open>_find_threshold\<close>\<close>

text \<open>Line 125: \<^verbatim>\<open>loss[0] = np.abs(np.sum(np.where(labels * sign < 0, labels, 0)))\<close>.\<close>

definition loss0 :: "real list \<Rightarrow> int \<Rightarrow> real" where
  "loss0 labels sign =
     \<bar>sum_list (map (\<lambda>l. if l * of_int sign < 0 then l else 0) labels)\<bar>"

text \<open>
  Lines 128--131, the body of the loop at index \<open>i\<close>, on the pair of arrays
  \<open>(loss, is_first_time)\<close>.
\<close>

definition sweep_step ::
  "real list \<Rightarrow> real list \<Rightarrow> int \<Rightarrow> nat \<Rightarrow> real list \<times> real list \<Rightarrow> real list \<times> real list" where
  "sweep_step values labels sign i = (\<lambda>(loss, is_first_time).
     (loss[i := loss ! (i - 1) + labels ! (i - 1) * of_int sign],
      if values ! (i - 1) \<noteq> values ! i then is_first_time[i := 1] else is_first_time))"

text \<open>Lines 123--131: both arrays start as zeros, entry 0 is set, then the loop runs.\<close>

definition sweep :: "real list \<Rightarrow> real list \<Rightarrow> int \<Rightarrow> real list \<times> real list" where
  "sweep values labels sign =
     fold (sweep_step values labels sign) [1..<length labels]
       ((replicate (length values) 0)[0 := loss0 labels sign],
        (replicate (length values) 0)[0 := 1])"

text \<open>\<^verbatim>\<open>np.max\<close> of a non-empty array.\<close>

definition np_max :: "real list \<Rightarrow> real" where
  "np_max xs = fold max (tl xs) (hd xs)"

text \<open>Lines 132--133: \<^verbatim>\<open>maxi = np.max(loss) + 1; loss[is_first_time != 1] = maxi\<close>.\<close>

definition mask_ties :: "real list \<Rightarrow> real list \<Rightarrow> real list" where
  "mask_ties loss is_first_time =
     (let maxi = np_max loss + 1
      in map (\<lambda>(l, f). if f \<noteq> 1 then maxi else l) (zip loss is_first_time))"

text \<open>\<^verbatim>\<open>np.argmin\<close>: the first index at which the minimum is found.\<close>

fun argmin :: "real list \<Rightarrow> nat" where
  "argmin [] = 0"
| "argmin [x] = 0"
| "argmin (x # y # ys) =
     (let i = argmin (y # ys) in if x \<le> (y # ys) ! i then 0 else Suc i)"

text \<open>Lines 135--156: from the winning index to the returned pair.\<close>

definition pick_threshold ::
  "real list \<Rightarrow> real list \<Rightarrow> int \<Rightarrow> real list \<Rightarrow> nat \<Rightarrow> xreal \<times> real" where
  "pick_threshold values labels sign loss index =
     (if index = 0 then (NegInf, loss ! 0)
      else if index = length labels - 1 then
        (if sign = 1 then
           (if labels ! index > 0 then (Fin (values ! index), loss ! index)
            else (PosInf, loss ! index + labels ! index))
         else
           (if labels ! index > 0 then (PosInf, loss ! index - labels ! index)
            else (Fin (values ! index), loss ! index)))
      else (Fin (values ! index), loss ! index))"

text \<open>Lines 123--133 together: the array \<open>loss\<close> as \<^verbatim>\<open>np.argmin\<close> sees it.\<close>

definition masked_loss :: "real list \<Rightarrow> real list \<Rightarrow> int \<Rightarrow> real list" where
  "masked_loss values labels sign =
     (let (loss, is_first_time) = sweep values labels sign
      in mask_ties loss is_first_time)"

text \<open>Line 134: \<^verbatim>\<open>index = np.argmin(loss)\<close>.\<close>

definition sweep_index :: "real list \<Rightarrow> real list \<Rightarrow> int \<Rightarrow> nat" where
  "sweep_index values labels sign = argmin (masked_loss values labels sign)"

text \<open>Lines 120--121: \<^verbatim>\<open>labels / np.sum(np.abs(labels))\<close>.\<close>

definition normalise :: "real list \<Rightarrow> real list" where
  "normalise labels = map (\<lambda>l. l / sum_list (map abs labels)) labels"

text \<open>
  Lines 119--156 on the sorted array \<open>vl\<close> of (value, label) rows. An empty array fails at
  \<^verbatim>\<open>loss[0] = ...\<close> with an IndexError. When the labels sum to zero in absolute value,
  numpy divides by zero without raising and every label becomes NaN; the model has no NaN
  and stops there with \<open>NotANumber\<close>.
\<close>

definition find_threshold_sorted :: "(real \<times> real) list \<Rightarrow> int \<Rightarrow> py_error + (xreal \<times> real)" where
  "find_threshold_sorted vl sign =
     (let values = map fst vl; labels = map snd vl
      in if vl = [] then Inl IndexError
         else if sum_list (map abs labels) = 0 then Inl NotANumber
         else
           let labels = normalise labels;
               loss = masked_loss values labels sign;
               index = sweep_index values labels sign
           in Inr (pick_threshold values labels sign loss index))"

text \<open>
  Lines 117--118: \<^verbatim>\<open>np.c_\<close> raises a ValueError on arrays of different lengths; the rows
  are then reordered by the sorting routine \<open>srt\<close>.
\<close>

definition find_threshold_by ::
  "((real \<times> real) list \<Rightarrow> (real \<times> real) list) \<Rightarrow> real list \<Rightarrow> real list \<Rightarrow> int
     \<Rightarrow> py_error + (xreal \<times> real)" where
  "find_threshold_by srt values labels sign =
     (if length values \<noteq> length labels then Inl ValueError
      else find_threshold_sorted (srt (zip values labels)) sign)"

definition find_threshold :: "real list \<Rightarrow> real list \<Rightarrow> int \<Rightarrow> py_error + (xreal \<times> real)" where
  "find_threshold = find_threshold_by (sort_key fst)"

subsection \<open>The model object, \<^verbatim>\<open>_fit\<close> and \<^verbatim>\<open>_predict\<close>\<close>

text \<open>
  The three attributes \<^verbatim>\<open>threshold_\<close>, \<^verbatim>\<open>j_\<close> and \<^verbatim>\<open>sign_\<close>, set to \<^verbatim>\<open>None\<close> by
  \<^verbatim>\<open>__init__\<close> (line 29). A HOL name cannot end with an underscore, hence the suffix.
\<close>

record stump =
  threshold_attr :: "xreal option"
  j_attr :: "nat option"
  sign_attr :: "int option"

definition init_stump :: stump where
  "init_stump = \<lparr>threshold_attr = None, j_attr = None, sign_attr = None\<rparr>"

text \<open>
  \<open>Arr1 xs\<close> is an array with \<^verbatim>\<open>ndim == 1\<close>; \<open>Arr2 d rows\<close> has shape
  \<open>(length rows, d)\<close>, every row of length \<open>d\<close>.
\<close>

datatype ndarray = Arr1 "real list" | Arr2 nat "real list list"

text \<open>\<^verbatim>\<open>X[:, i]\<close> for \<open>i\<close> below the number of columns.\<close>

definition column :: "real list list \<Rightarrow> nat \<Rightarrow> real list" where
  "column rows i = map (\<lambda>r. r ! i) rows"

text \<open>The local variables \<^verbatim>\<open>best_feature, best_threshold, best_loss, best_sign\<close>.\<close>

type_synonym best = "nat \<times> xreal option \<times> xreal \<times> int"

definition init_best :: best where
  "init_best = (0, None, PosInf, 1)"

text \<open>
  Lines 46--49 and 54--57: one call of \<^verbatim>\<open>_find_threshold\<close> and the conditional update.
  An exception of the call leaves \<^verbatim>\<open>_fit\<close>.
\<close>

definition try_candidate ::
  "((real \<times> real) list \<Rightarrow> (real \<times> real) list) \<Rightarrow> real list \<Rightarrow> real list \<Rightarrow> nat \<Rightarrow> int
     \<Rightarrow> best \<Rightarrow> py_error + best" where
  "try_candidate srt vec y i sign b =
     (case find_threshold_by srt vec y sign of
        Inl e \<Rightarrow> Inl e
      | Inr (threshold, loss) \<Rightarrow>
          (case b of (best_feature, best_threshold, best_loss, best_sign) \<Rightarrow>
             Inr (if lt_best loss best_loss then (i, Some threshold, Fin loss, sign) else b)))"

text \<open>\<^verbatim>\<open>for sign in [-1, 1]\<close>, on the feature vector \<open>vec\<close> of feature \<open>i\<close>.\<close>

fun sign_loop ::
  "((real \<times> real) list \<Rightarrow> (real \<times> real) list) \<Rightarrow> real list \<Rightarrow> real list \<Rightarrow> nat \<Rightarrow> int list
     \<Rightarrow> best \<Rightarrow> py_error + best" where
  "sign_loop srt vec y i [] b = Inr b"
| "sign_loop srt vec y i (sign # signs) b =
     (case try_candidate srt vec y i sign b of
        Inl e \<Rightarrow> Inl e
      | Inr b' \<Rightarrow> sign_loop srt vec y i signs b')"

text \<open>\<^verbatim>\<open>for i in range(X.shape[1])\<close>.\<close>

fun feature_loop ::
  "((real \<times> real) list \<Rightarrow> (real \<times> real) list) \<Rightarrow> real list list \<Rightarrow> real list \<Rightarrow> nat list
     \<Rightarrow> best \<Rightarrow> py_error + best" where
  "feature_loop srt rows y [] b = Inr b"
| "feature_loop srt rows y (i # is) b =
     (case sign_loop srt (column rows i) y i [- 1, 1] b of
        Inl e \<Rightarrow> Inl e
      | Inr b' \<Rightarrow> feature_loop srt rows y is b')"

text \<open>Lines 43--57: the search, returning the four local variables.\<close>

definition fit_search ::
  "((real \<times> real) list \<Rightarrow> (real \<times> real) list) \<Rightarrow> ndarray \<Rightarrow> real list \<Rightarrow> py_error + best" where
  "fit_search srt X y =
     (case X of
        Arr1 xs \<Rightarrow> sign_loop srt xs y 0 [- 1, 1] init_best
      | Arr2 d rows \<Rightarrow> feature_loop srt rows y [0..<d] init_best)"

text \<open>Lines 58--59: the three attributes are assigned; \<open>best_loss\<close> is dropped.\<close>

definition fit_by ::
  "((real \<times> real) list \<Rightarrow> (real \<times> real) list) \<Rightarrow> stump \<Rightarrow> ndarray \<Rightarrow> real list
     \<Rightarrow> py_error + stump" where
  "fit_by srt self X y =
     (case fit_search srt X y of
        Inl e \<Rightarrow> Inl e
      | Inr (best_feature, best_threshold, best_loss, best_sign) \<Rightarrow>
          Inr (self\<lparr>threshold_attr := best_threshold, j_attr := Some best_feature,
                     sign_attr := Some best_sign\<rparr>))"

definition fit :: "stump \<Rightarrow> ndarray \<Rightarrow> real list \<Rightarrow> py_error + stump" where
  "fit = fit_by (sort_key fst)"

text \<open>
  Lines 83--84. \<^verbatim>\<open>X[:, self.j_]\<close> is evaluated first: with an integer index it raises an
  IndexError on a one-dimensional array (too many indices) and on a column out of range.
  The comparison with a threshold that is still \<^verbatim>\<open>None\<close> raises a TypeError, which is
  also what the model returns for the unfitted object.
\<close>

definition predict :: "stump \<Rightarrow> ndarray \<Rightarrow> py_error + int list" where
  "predict self X =
     (case j_attr self of
        None \<Rightarrow> Inl TypeError
      | Some j \<Rightarrow>
          (case X of
             Arr1 xs \<Rightarrow> Inl IndexError
           | Arr2 d rows \<Rightarrow>
               if d \<le> j then Inl IndexError
               else (case (threshold_attr self, sign_attr self) of
                       (Some thr, Some s) \<Rightarrow>
                         Inr (map (\<lambda>r. if ge_thr (r ! j) thr then s else - s) rows)
                     | _ \<Rightarrow> Inl TypeError)))"

subsection \<open>Double precision\<close>

text \<open>
  A finite double is identified with the real number it denotes. \<open>pow2 e\<close> is \<open>2\<^sup>e\<close> for an
  integer \<open>e\<close>, and \<open>ilog2 x\<close> is the exponent of a positive \<open>x\<close>: the integer \<open>e\<close> with
  \<open>2\<^sup>e \<le> x < 2\<^sup>e\<^sup>+\<^sup>1\<close>.
\<close>

definition pow2 :: "int \<Rightarrow> real" where
  "pow2 e = (if 0 \<le> e then 2 ^ nat e else 1 / 2 ^ nat (- e))"

definition ilog2 :: "real \<Rightarrow> int" where
  "ilog2 x = (if 1 \<le> x then bitlen \<lfloor>x\<rfloor> - 1 else - bitlen (\<lceil>1 / x\<rceil> - 1))"

text \<open>The nearest integer, a tie going to the even one.\<close>

definition round_half_even :: "real \<Rightarrow> int" where
  "round_half_even m =
     (let f = \<lfloor>m\<rfloor>; d = m - of_int f
      in if d < 1 / 2 then f else if 1 / 2 < d then f + 1 else if even f then f else f + 1)"

text \<open>
  Rounding to the nearest double, ties to even: the nearest multiple of \<open>2\<^sup>e\<^sup>-\<^sup>5\<^sup>2\<close>, where \<open>e\<close> is
  the exponent of the argument, so that 53 bits are kept. Overflow and subnormal numbers are
  not modelled; no intermediate value of the evaluations below comes near either.
\<close>

definition f64 :: "real \<Rightarrow> real" where
  "f64 x = (if x = 0 then 0
            else let q = pow2 (ilog2 \<bar>x\<bar> - 52) in of_int (round_half_even (x / q)) * q)"

text \<open>The four operations of IEEE arithmetic: the exact result, rounded.\<close>

definition fadd :: "real \<Rightarrow> real \<Rightarrow> real" where "fadd x y = f64 (x + y)"
definition fsub :: "real \<Rightarrow> real \<Rightarrow> real" where "fsub x y = f64 (x - y)"
definition fmul :: "real \<Rightarrow> real \<Rightarrow> real" where "fmul x y = f64 (x * y)"
definition fdiv :: "real \<Rightarrow> real \<Rightarrow> real" where "fdiv x y = f64 (x / y)"

text \<open>
  \<^verbatim>\<open>np.sum\<close> of a short one-dimensional array: the entries are added from left to right.
\<close>

definition np_sum :: "real list \<Rightarrow> real" where
  "np_sum xs = fold (\<lambda>x acc. fadd acc x) xs 0"

subsection \<open>\<^verbatim>\<open>_find_threshold\<close> in double precision\<close>

text \<open>
  The definitions of lines 117--156 again, with \<open>fadd\<close>, \<open>fsub\<close>, \<open>fmul\<close>, \<open>fdiv\<close> and
  \<open>np_sum\<close> where the source adds, subtracts, multiplies, divides and sums. Comparisons,
  \<^verbatim>\<open>np.abs\<close>, \<^verbatim>\<open>np.max\<close> and \<^verbatim>\<open>np.argmin\<close> are exact on doubles and are the ones used above.
\<close>

definition normalise_f64 :: "real list \<Rightarrow> real list" where
  "normalise_f64 labels = map (\<lambda>l. fdiv l (np_sum (map abs labels))) labels"

definition loss0_f64 :: "real list \<Rightarrow> int \<Rightarrow> real" where
  "loss0_f64 labels sign =
     \<bar>np_sum (map (\<lambda>l. if fmul l (of_int sign) < 0 then l else 0) labels)\<bar>"

definition sweep_step_f64 ::
  "real list \<Rightarrow> real list \<Rightarrow> int \<Rightarrow> nat \<Rightarrow> real list \<times> real list \<Rightarrow> real list \<times> real list" where
  "sweep_step_f64 values labels sign i = (\<lambda>(loss, is_first_time).
     (loss[i := fadd (loss ! (i - 1)) (fmul (labels ! (i - 1)) (of_int sign))],
      if values ! (i - 1) \<noteq> values ! i then is_first_time[i := 1] else is_first_time))"

definition sweep_f64 :: "real list \<Rightarrow> real list \<Rightarrow> int \<Rightarrow> real list \<times> real list" where
  "sweep_f64 values labels sign =
     fold (sweep_step_f64 values labels sign) [1..<length labels]
       ((replicate (length values) 0)[0 := loss0_f64 labels sign],
        (replicate (length values) 0)[0 := 1])"

definition mask_ties_f64 :: "real list \<Rightarrow> real list \<Rightarrow> real list" where
  "mask_ties_f64 loss is_first_time =
     (let maxi = fadd (np_max loss) 1
      in map (\<lambda>(l, f). if f \<noteq> 1 then maxi else l) (zip loss is_first_time))"

definition masked_loss_f64 :: "real list \<Rightarrow> real list \<Rightarrow> int \<Rightarrow> real list" where
  "masked_loss_f64 values labels sign =
     (let (loss, is_first_time) = sweep_f64 values labels sign
      in mask_ties_f64 loss is_first_time)"

definition pick_threshold_f64 ::
  "real list \<Rightarrow> real list \<Rightarrow> int \<Rightarrow> real list \<Rightarrow> nat \<Rightarrow> xreal \<times> real" where
  "pick_threshold_f64 values labels sign loss index =
     (if index = 0 then (NegInf, loss ! 0)
      else if index = length labels - 1 then
        (if sign = 1 then
           (if labels ! index > 0 then (Fin (values ! index), loss ! index)
            else (PosInf, fadd (loss ! index) (labels ! index)))
         else
           (if labels ! index > 0 then (PosInf, fsub (loss ! index) (labels ! index))
            else (Fin (values ! index), loss ! index)))
      else (Fin (values ! index), loss ! index))"

definition find_threshold_f64 ::
  "real list \<Rightarrow> real list \<Rightarrow> int \<Rightarrow> py_error + (xreal \<times> real)" where
  "find_threshold_f64 values labels sign =
     (if length values \<noteq> length labels then Inl ValueError
      else
        let vl = sort_key fst (zip values labels);
            values = map fst vl; labels = map snd vl
        in if vl = [] then Inl IndexError
           else if np_sum (map abs labels) = 0 then Inl NotANumber
           else
             let labels = normalise_f64 labels;
                 loss = masked_loss_f64 values labels sign;
                 index = argmin loss
             in Inr (pick_threshold_f64 values labels sign loss index))"

subsection \<open>What the documentation asks of the search\<close>

text \<open>
  The rule of the docstrings: a value equal to or above the threshold is predicted as
  \<open>sign\<close>, a value strictly below as \<open>-sign\<close>.
\<close>

definition predict_one :: "xreal \<Rightarrow> int \<Rightarrow> real \<Rightarrow> int" where
  "predict_one thr sign v = (if ge_thr v thr then sign else - sign)"

text \<open>
  The weighted misclassification fraction of a threshold: the weight \<open>\<bar>l\<bar>\<close> of every sample
  whose label has the sign opposite to its prediction, over the total weight.
\<close>

definition misclass :: "real list \<Rightarrow> real list \<Rightarrow> int \<Rightarrow> xreal \<Rightarrow> real" where
  "misclass values labels sign thr =
     sum_list (map (\<lambda>(v, l). if l * of_int (predict_one thr sign v) < 0 then \<bar>l\<bar> else 0)
                 (zip values labels))
       / sum_list (map abs labels)"

text \<open>
  The candidate thresholds: below everything, at each value, above everything. They
  realise every split that a threshold can make, at most \<open>n + 1\<close> different ones.
\<close>

definition candidates :: "real list \<Rightarrow> xreal list" where
  "candidates values = NegInf # map Fin values @ [PosInf]"

text \<open>
  What the model asks of the sorting routine: it permutes the rows and leaves them ordered
  by their first component, the value. Nothing is asked about rows with equal values.
\<close>

definition valid_sorter :: "((real \<times> real) list \<Rightarrow> (real \<times> real) list) \<Rightarrow> bool" where
  "valid_sorter srt \<longleftrightarrow> (\<forall>xs. mset (srt xs) = mset xs \<and> sorted (map fst (srt xs)))"

text \<open>The features of an input of \<open>fit\<close>: how many there are, and the vector of each.\<close>

fun ncols :: "ndarray \<Rightarrow> nat" where
  "ncols (Arr1 xs) = 1"
| "ncols (Arr2 d rows) = d"

fun feature :: "ndarray \<Rightarrow> nat \<Rightarrow> real list" where
  "feature (Arr1 xs) i = xs"
| "feature (Arr2 d rows) i = column rows i"

text \<open>
  The preconditions that the callers are to establish: at least one sample, a positive
  total weight, as many values as labels, and at least one feature.
\<close>

definition valid_labels :: "real list \<Rightarrow> bool" where
  "valid_labels y \<longleftrightarrow> y \<noteq> [] \<and> 0 < sum_list (map abs y)"

definition valid_input :: "ndarray \<Rightarrow> real list \<Rightarrow> bool" where
  "valid_input X y \<longleftrightarrow> valid_labels y \<and>
     (case X of
        Arr1 xs \<Rightarrow> length xs = length y
      | Arr2 d rows \<Rightarrow> 0 < d \<and> length rows = length y \<and> list_all (\<lambda>r. length r = d) rows)"

subsection \<open>An auxiliary notion\<close>

text \<open>
  The weight that a sample with label \<open>l\<close> adds to the error when it is predicted as
  \<open>sign\<close>: its weight if the label has the opposite sign, nothing otherwise.
\<close>

definition miss :: "int \<Rightarrow> real \<Rightarrow> real" where
  "miss sign l = (if l * of_int sign < 0 then \<bar>l\<bar> else 0)"

text \<open>
  The invariant of the loops of \<open>fit\<close>: after the candidates \<open>cands\<close> (pairs of a feature and
  a sign) the local variables hold the initial values if there was no candidate yet, and
  otherwise one of the candidates with what \<open>_find_threshold\<close> returned for it, its error
  being the least among the candidates.
\<close>

definition best_among ::
  "((real \<times> real) list \<Rightarrow> (real \<times> real) list) \<Rightarrow> ndarray \<Rightarrow> real list \<Rightarrow> (nat \<times> int) list
     \<Rightarrow> best \<Rightarrow> bool" where
  "best_among srt X y cands b \<longleftrightarrow>
     (if cands = [] then b = init_best
      else case b of (j, t, l, s) \<Rightarrow>
        \<exists>thr e. t = Some thr \<and> l = Fin e \<and> (j, s) \<in> set cands
          \<and> find_threshold_by srt (feature X j) y s = Inr (thr, e)
          \<and> (\<forall>(i, s')\<in>set cands. \<forall>thr' e'.
                find_threshold_by srt (feature X i) y s' = Inr (thr', e') \<longrightarrow> e \<le> e'))"

section \<open>Facts about the library functions and the sweep\<close>

subsection \<open>\<open>argmin\<close> and \<open>np_max\<close>\<close>

lemma argmin_less: "xs \<noteq> [] \<Longrightarrow> argmin xs < length xs"
  by (induction xs rule: argmin.induct) (auto simp: Let_def)

lemma argmin_le: "i < length xs \<Longrightarrow> xs ! argmin xs \<le> xs ! i"
proof (induction xs arbitrary: i rule: argmin.induct)
  case 1
  then show ?case by simp
next
  case (2 x)
  then show ?case by simp
next
  case (3 x y ys)
  show ?case
  proof (cases i)
    case 0
    then show ?thesis by (auto simp: Let_def)
  next
    case (Suc k)
    with 3 have "(y # ys) ! argmin (y # ys) \<le> (y # ys) ! k" by simp
    with Suc show ?thesis by (auto simp: Let_def)
  qed
qed



lemma np_max_ge: "x \<in> set xs \<Longrightarrow> x \<le> np_max xs"
proof -
  assume x: "x \<in> set xs"
  then obtain y ys where xs: "xs = y # ys" by (cases xs) auto
  have "np_max xs = Max (set xs)"
    unfolding xs np_max_def using Max.set_eq_fold [of y ys] by simp
  with x show ?thesis by simp
qed

subsection \<open>The two arrays after the loop\<close>

text \<open>
  After the iterations \<open>1, \<dots>, k\<close> the entries \<open>0, \<dots>, k\<close> of \<open>loss\<close> are the first entry plus
  \<open>sign\<close> times a prefix sum of the labels, and \<open>is_first_time\<close> flags index 0 and every
  index up to \<open>k\<close> whose value differs from the one before.
\<close>

lemma sweep_invariant:
  assumes "length values = n" and "length labels = n" and "Suc k \<le> n"
  shows "case fold (sweep_step values labels sign) [1..<Suc k]
              ((replicate n 0)[0 := loss0 labels sign], (replicate n 0)[0 := 1]) of
           (loss, ift) \<Rightarrow> length loss = n \<and> length ift = n \<and>
             (\<forall>i\<le>k. loss ! i = loss0 labels sign + of_int sign * sum_list (take i labels)) \<and>
             (\<forall>i<n. ift ! i = (if i \<le> k \<and> (i = 0 \<or> values ! (i - 1) \<noteq> values ! i) then 1 else 0))"
  using assms(3)
proof (induction k)
  case 0
  then show ?case by (auto simp: nth_list_update)
next
  case (Suc k)
  obtain loss ift where f: "fold (sweep_step values labels sign) [1..<Suc k]
              ((replicate n 0)[0 := loss0 labels sign], (replicate n 0)[0 := 1]) = (loss, ift)"
    by (cases "fold (sweep_step values labels sign) [1..<Suc k]
              ((replicate n 0)[0 := loss0 labels sign], (replicate n 0)[0 := 1])")
  from Suc f have len: "length loss = n" "length ift = n"
    and lo: "\<forall>i\<le>k. loss ! i = loss0 labels sign + of_int sign * sum_list (take i labels)"
    and fi: "\<forall>i<n. ift ! i = (if i \<le> k \<and> (i = 0 \<or> values ! (i - 1) \<noteq> values ! i) then 1 else 0)"
    by auto
  from Suc.prems assms(2) have tk: "take (Suc k) labels = take k labels @ [labels ! k]"
    by (simp add: take_Suc_conv_app_nth)
  have step: "fold (sweep_step values labels sign) [1..<Suc (Suc k)]
              ((replicate n 0)[0 := loss0 labels sign], (replicate n 0)[0 := 1])
            = sweep_step values labels sign (Suc k) (loss, ift)"
    using f by simp
  show ?case
    unfolding step using len lo fi tk Suc.prems
    by (auto simp: sweep_step_def nth_list_update algebra_simps le_Suc_eq)
qed


lemma sweep_result:
  assumes "length values = length labels" and "labels \<noteq> []"
  obtains loss ift where "sweep values labels sign = (loss, ift)"
    and "length loss = length labels" and "length ift = length labels"
    and "\<forall>i<length labels. loss ! i = loss0 labels sign + of_int sign * sum_list (take i labels)"
    and "\<forall>i<length labels. ift ! i = (if i = 0 \<or> values ! (i - 1) \<noteq> values ! i then 1 else 0)"
proof -
  from assms(2) obtain k where k: "length labels = Suc k" by (cases labels) auto
  obtain loss ift where sw: "sweep values labels sign = (loss, ift)"
    by (cases "sweep values labels sign")
  have "case sweep values labels sign of
           (loss, ift) \<Rightarrow> length loss = Suc k \<and> length ift = Suc k \<and>
             (\<forall>i\<le>k. loss ! i = loss0 labels sign + of_int sign * sum_list (take i labels)) \<and>
             (\<forall>i<Suc k. ift ! i = (if i \<le> k \<and> (i = 0 \<or> values ! (i - 1) \<noteq> values ! i) then 1 else 0))"
    using sweep_invariant [of "values" "Suc k" labels k sign] assms(1) k
    by (simp add: sweep_def)
  with sw k have "length loss = length labels" "length ift = length labels"
    "\<forall>i<length labels. loss ! i = loss0 labels sign + of_int sign * sum_list (take i labels)"
    "\<forall>i<length labels. ift ! i = (if i = 0 \<or> values ! (i - 1) \<noteq> values ! i then 1 else 0)"
    by (auto simp: less_Suc_eq_le)
  with sw show thesis by (rule that)
qed

lemma masked_loss_props:
  assumes "length values = length labels" and "labels \<noteq> []"
    and "sweep values labels sign = (loss, ift)"
  shows "length (masked_loss values labels sign) = length labels"
    and "i < length labels \<Longrightarrow> i = 0 \<or> values ! (i - 1) \<noteq> values ! i \<Longrightarrow>
           masked_loss values labels sign ! i = loss ! i"
    and "i < length labels \<Longrightarrow> \<not> (i = 0 \<or> values ! (i - 1) \<noteq> values ! i) \<Longrightarrow>
           masked_loss values labels sign ! i = np_max loss + 1"
    and "i < length labels \<Longrightarrow> loss ! i < np_max loss + 1"
proof -
  obtain loss' ift' where sw: "sweep values labels sign = (loss', ift')"
    and len: "length loss' = length labels" "length ift' = length labels"
    and fi: "\<forall>i<length labels. ift' ! i = (if i = 0 \<or> values ! (i - 1) \<noteq> values ! i then 1 else 0)"
    using sweep_result [OF assms(1,2)] by metis
  from sw assms(3) have eq: "loss' = loss" "ift' = ift" by simp_all
  show "length (masked_loss values labels sign) = length labels"
    using len eq assms(3) by (simp add: masked_loss_def mask_ties_def Let_def)
  show "masked_loss values labels sign ! i = loss ! i"
    if "i < length labels" "i = 0 \<or> values ! (i - 1) \<noteq> values ! i"
    using that len eq fi assms(3) by (simp add: masked_loss_def mask_ties_def Let_def)
  show "masked_loss values labels sign ! i = np_max loss + 1"
    if "i < length labels" "\<not> (i = 0 \<or> values ! (i - 1) \<noteq> values ! i)"
    using that len eq fi assms(3) by (simp add: masked_loss_def mask_ties_def Let_def)
  show "loss ! i < np_max loss + 1" if "i < length labels"
  proof -
    from that len eq have "loss ! i \<in> set loss" by simp
    then have "loss ! i \<le> np_max loss" by (rule np_max_ge)
    then show ?thesis by simp
  qed
qed

lemma sweep_index_first_time:
  assumes "length values = length labels" and "labels \<noteq> []"
  shows "sweep_index values labels sign < length labels"
    and "sweep_index values labels sign = 0
         \<or> values ! (sweep_index values labels sign - 1) \<noteq> values ! sweep_index values labels sign"
proof -
  let ?m = "masked_loss values labels sign"
  let ?i = "sweep_index values labels sign"
  obtain loss ift where sw: "sweep values labels sign = (loss, ift)"
    by (cases "sweep values labels sign")
  note mp = masked_loss_props [OF assms sw]
  from mp(1) assms(2) have ne: "?m \<noteq> []" by auto
  then have "argmin ?m < length ?m" by (rule argmin_less)
  with mp(1) show lt: "?i < length labels" by (simp add: sweep_index_def)
  show "?i = 0 \<or> values ! (?i - 1) \<noteq> values ! ?i"
  proof (rule ccontr)
    assume mid: "\<not> (?i = 0 \<or> values ! (?i - 1) \<noteq> values ! ?i)"
    from assms(2) have pos: "0 < length labels" by simp
    have "?m ! ?i = np_max loss + 1" using lt mid by (rule mp(3))
    moreover have "?m ! 0 = loss ! 0" using pos by (rule mp(2)) simp
    moreover have "loss ! 0 < np_max loss + 1" using pos by (rule mp(4))
    moreover have "?m ! ?i \<le> ?m ! 0"
      unfolding sweep_index_def using pos mp(1) by (intro argmin_le) simp
    ultimately show False by simp
  qed
qed

lemma find_threshold_sorted_valid:
  assumes "valid_labels (map snd vl)"
  shows "find_threshold_sorted vl sign =
           Inr (pick_threshold (map fst vl) (normalise (map snd vl)) sign
                  (masked_loss (map fst vl) (normalise (map snd vl)) sign)
                  (sweep_index (map fst vl) (normalise (map snd vl)) sign))"
  using assms by (auto simp: find_threshold_sorted_def valid_labels_def Let_def)

subsection \<open>The sorting routine\<close>

lemma valid_sorter_sort_key: "valid_sorter (sort_key fst)"
  by (simp add: valid_sorter_def)

subsection \<open>The accumulated error as a misclassified weight\<close>

lemma loss0_eq:
  assumes "sign = 1 \<or> sign = - 1"
  shows "loss0 ls sign = sum_list (map (miss sign) ls)"
proof -
  have nonneg: "0 \<le> sum_list (map (miss sign) ls)"
    by (rule sum_list_nonneg) (auto simp: miss_def)
  from assms show ?thesis
  proof
    assume s: "sign = 1"
    have "sum_list (map (\<lambda>l. if l * of_int sign < 0 then l else 0) ls)
            = - sum_list (map (miss sign) ls)"
      by (induction ls) (auto simp: miss_def s)
    with nonneg show ?thesis by (simp add: loss0_def)
  next
    assume s: "sign = - 1"
    have "sum_list (map (\<lambda>l. if l * of_int sign < 0 then l else 0) ls)
            = sum_list (map (miss sign) ls)"
      by (induction ls) (auto simp: miss_def s)
    with nonneg show ?thesis by (simp add: loss0_def)
  qed
qed

lemma flipped_bounds:
  assumes "sign = 1 \<or> sign = - 1"
  shows "0 \<le> sum_list (map (miss sign) xs) + of_int sign * sum_list xs"
    and "sum_list (map (miss sign) xs) + of_int sign * sum_list xs \<le> sum_list (map abs xs)"
  using assms by (induction xs) (auto simp: miss_def algebra_simps)

lemma miss_bounds:
  shows "0 \<le> sum_list (map (miss sign) xs)"
    and "sum_list (map (miss sign) xs) \<le> sum_list (map abs xs)"
  by (induction xs) (auto simp: miss_def)

lemma loss_at_bounds:
  assumes "sign = 1 \<or> sign = - 1"
  shows "0 \<le> loss0 ls sign + of_int sign * sum_list (take i ls)"
    and "loss0 ls sign + of_int sign * sum_list (take i ls) \<le> sum_list (map abs ls)"
proof -
  have split: "sum_list (map (miss sign) ls)
                 = sum_list (map (miss sign) (take i ls)) + sum_list (map (miss sign) (drop i ls))"
    by (metis append_take_drop_id map_append sum_list_append)
  have abs_split: "sum_list (map abs ls)
                 = sum_list (map abs (take i ls)) + sum_list (map abs (drop i ls))"
    by (metis append_take_drop_id map_append sum_list_append)
  note a = flipped_bounds [OF assms, of "take i ls"]
  note b = miss_bounds [of sign "drop i ls"]
  show "0 \<le> loss0 ls sign + of_int sign * sum_list (take i ls)"
    unfolding loss0_eq [OF assms] split using a(1) b(1) by linarith
  show "loss0 ls sign + of_int sign * sum_list (take i ls) \<le> sum_list (map abs ls)"
    unfolding loss0_eq [OF assms] split abs_split using a(2) b(2) by linarith
qed

lemma normalise_total:
  assumes "0 < sum_list (map abs ls)"
  shows "sum_list (map abs (normalise ls)) = 1"
proof -
  have "sum_list (map abs (map (\<lambda>l. l / c) xs)) = sum_list (map abs xs) / c" if "0 < c"
    for c :: real and xs
    using that by (induction xs) (simp_all add: add_divide_distrib)
  from this [OF assms, of ls] assms show ?thesis by (simp add: normalise_def)
qed

lemma pick_threshold_error:
  assumes "length values = length labels" and "labels \<noteq> []" and "sign = 1 \<or> sign = - 1"
  shows "\<exists>i\<le>length labels.
           snd (pick_threshold values labels sign (masked_loss values labels sign)
                  (sweep_index values labels sign))
             = loss0 labels sign + of_int sign * sum_list (take i labels)"
proof -
  define n where "n = length labels"
  define ix where "ix = sweep_index values labels sign"
  define m where "m = masked_loss values labels sign"
  obtain loss ift where sw: "sweep values labels sign = (loss, ift)"
    and lo: "\<forall>i<length labels. loss ! i = loss0 labels sign + of_int sign * sum_list (take i labels)"
    using sweep_result [OF assms(1,2)] by metis
  note mp = masked_loss_props [OF assms(1,2) sw]
  note si = sweep_index_first_time [OF assms(1,2), of sign]
  have ixn: "ix < n" using si(1) by (simp add: ix_def n_def)
  have "m ! ix = loss ! ix" unfolding m_def ix_def using si by (rule mp(2))
  with lo ixn have mix: "m ! ix = loss0 labels sign + of_int sign * sum_list (take ix labels)"
    by (simp add: n_def)
  have tk: "take (Suc ix) labels = take ix labels @ [labels ! ix]"
    using ixn by (simp add: n_def take_Suc_conv_app_nth)
  have full: "loss0 labels sign + of_int sign * sum_list (take (Suc ix) labels)
                = m ! ix + of_int sign * labels ! ix"
    by (simp add: tk mix algebra_simps)
  let ?e = "snd (pick_threshold values labels sign m ix)"
  have "?e = m ! ix \<or> ?e = m ! ix + of_int sign * labels ! ix"
    using assms(3) by (auto simp: pick_threshold_def)
  then have "\<exists>i\<le>n. ?e = loss0 labels sign + of_int sign * sum_list (take i labels)"
  proof
    assume "?e = m ! ix"
    with mix ixn show ?thesis by (intro exI [of _ ix]) simp
  next
    assume "?e = m ! ix + of_int sign * labels ! ix"
    with full ixn show ?thesis by (intro exI [of _ "Suc ix"]) simp
  qed
  then show ?thesis by (simp add: n_def m_def ix_def)
qed

lemma sorter_labels:
  assumes "valid_sorter srt" and "length values = length labels"
  shows "mset (map snd (srt (zip values labels))) = mset labels"
    and "set (map fst (srt (zip values labels))) \<subseteq> set values"
proof -
  from assms(1) have ms: "mset (srt (zip values labels)) = mset (zip values labels)"
    by (simp add: valid_sorter_def)
  have "mset (map snd (srt (zip values labels))) = image_mset snd (mset (srt (zip values labels)))"
    by simp
  also have "\<dots> = mset (map snd (zip values labels))" by (simp add: ms)
  also have "\<dots> = mset labels" using assms(2) by simp
  finally show "mset (map snd (srt (zip values labels))) = mset labels" .
  from ms have "set (srt (zip values labels)) = set (zip values labels)"
    by (rule mset_eq_setD)
  then show "set (map fst (srt (zip values labels))) \<subseteq> set values"
    by (auto dest: set_zip_leftD)
qed

lemma valid_labels_mset:
  assumes "mset xs = mset ys" and "valid_labels ys"
  shows "valid_labels xs"
proof -
  have "sum_list (map abs xs) = sum_mset (image_mset abs (mset xs))"
    by (metis mset_map sum_mset_sum_list)
  also have "\<dots> = sum_mset (image_mset abs (mset ys))" by (simp add: assms(1))
  also have "\<dots> = sum_list (map abs ys)" by (metis mset_map sum_mset_sum_list)
  finally have "sum_list (map abs xs) = sum_list (map abs ys)" .
  moreover from assms have "xs \<noteq> []" by (auto simp: valid_labels_def)
  ultimately show ?thesis using assms(2) by (simp add: valid_labels_def)
qed

lemma find_threshold_sorted_bounds:
  assumes "valid_labels (map snd vl)" and "sign = 1 \<or> sign = - 1"
  shows "\<exists>thr err. find_threshold_sorted vl sign = Inr (thr, err) \<and> 0 \<le> err \<and> err \<le> 1"
proof -
  let ?vs = "map fst vl" and ?ls = "normalise (map snd vl)"
  let ?r = "pick_threshold ?vs ?ls sign (masked_loss ?vs ?ls sign) (sweep_index ?vs ?ls sign)"
  from assms(1) have len: "length ?vs = length ?ls" and ne: "?ls \<noteq> []"
    by (simp_all add: valid_labels_def normalise_def)
  from assms(1) have tot: "sum_list (map abs ?ls) = 1"
    by (intro normalise_total) (simp add: valid_labels_def)
  obtain i where "snd ?r = loss0 ?ls sign + of_int sign * sum_list (take i ?ls)"
    using pick_threshold_error [OF len ne assms(2)] by blast
  with loss_at_bounds [OF assms(2), of ?ls i] tot
  have "0 \<le> snd ?r" "snd ?r \<le> 1" by simp_all
  moreover have "find_threshold_sorted vl sign = Inr (fst ?r, snd ?r)"
    using find_threshold_sorted_valid [OF assms(1), of sign] by simp
  ultimately show ?thesis by blast
qed

subsection \<open>The loops of \<open>fit\<close>\<close>

lemma find_threshold_by_total:
  assumes "valid_sorter srt" and "length values = length labels" and "valid_labels labels"
  shows "\<exists>thr err. find_threshold_by srt values labels sign = Inr (thr, err)"
proof -
  have "valid_labels (map snd (srt (zip values labels)))"
    using sorter_labels(1) [OF assms(1,2)] assms(3) by (rule valid_labels_mset)
  from find_threshold_sorted_valid [OF this, of sign] assms(2)
  show ?thesis by (cases "pick_threshold (map fst (srt (zip values labels)))
      (normalise (map snd (srt (zip values labels)))) sign
      (masked_loss (map fst (srt (zip values labels)))
         (normalise (map snd (srt (zip values labels)))) sign)
      (sweep_index (map fst (srt (zip values labels)))
         (normalise (map snd (srt (zip values labels)))) sign)")
      (simp add: find_threshold_by_def)
qed

lemma try_candidate_first:
  assumes "find_threshold_by srt vec y sign = Inr (thr, e)"
  shows "try_candidate srt vec y i sign init_best = Inr (i, Some thr, Fin e, sign)"
  using assms by (simp add: try_candidate_def init_best_def)

lemma try_candidate_step:
  assumes "best_among srt X y cands b"
    and "find_threshold_by srt (feature X i) y sign = Inr (thr, e)"
  shows "\<exists>b'. try_candidate srt (feature X i) y i sign b = Inr b'
           \<and> best_among srt X y (cands @ [(i, sign)]) b'"
proof (cases "cands = []")
  case True
  with assms(1) have "b = init_best" by (simp add: best_among_def)
  with assms(2) True show ?thesis
    by (auto simp: try_candidate_first best_among_def)
next
  case False
  obtain j t l s where b: "b = (j, t, l, s)" by (cases b)
  from assms(1) False b obtain thr0 e0 where
    t: "t = Some thr0" and l: "l = Fin e0" and mem: "(j, s) \<in> set cands"
    and ft: "find_threshold_by srt (feature X j) y s = Inr (thr0, e0)"
    and mn: "\<forall>(i, s')\<in>set cands. \<forall>thr' e'.
                find_threshold_by srt (feature X i) y s' = Inr (thr', e') \<longrightarrow> e0 \<le> e'"
    by (auto simp: best_among_def)
  show ?thesis
  proof (cases "e < e0")
    case True
    then have tc: "try_candidate srt (feature X i) y i sign b = Inr (i, Some thr, Fin e, sign)"
      using assms(2) b l by (simp add: try_candidate_def)
    have "best_among srt X y (cands @ [(i, sign)]) (i, Some thr, Fin e, sign)"
      unfolding best_among_def using assms(2) mn True by fastforce
    with tc show ?thesis by blast
  next
    case False
    then have tc: "try_candidate srt (feature X i) y i sign b = Inr b"
      using assms(2) b l by (simp add: try_candidate_def)
    have "best_among srt X y (cands @ [(i, sign)]) b"
      unfolding best_among_def b using assms(2) mn False t l mem ft by fastforce
    with tc show ?thesis by blast
  qed
qed

lemma sign_loop_step:
  assumes "best_among srt X y cands b"
    and "\<forall>s\<in>set signs. \<exists>r. find_threshold_by srt (feature X i) y s = Inr r"
  shows "\<exists>b'. sign_loop srt (feature X i) y i signs b = Inr b'
           \<and> best_among srt X y (cands @ map (Pair i) signs) b'"
  using assms
proof (induction signs arbitrary: cands b)
  case Nil
  then show ?case by simp
next
  case (Cons s signs)
  from Cons.prems(2) obtain thr e where
    "find_threshold_by srt (feature X i) y s = Inr (thr, e)" by fastforce
  from try_candidate_step [OF Cons.prems(1) this] obtain b1 where
    tc: "try_candidate srt (feature X i) y i s b = Inr b1"
    and b1: "best_among srt X y (cands @ [(i, s)]) b1" by blast
  from Cons.prems(2) have "\<forall>s\<in>set signs. \<exists>r. find_threshold_by srt (feature X i) y s = Inr r"
    by simp
  from Cons.IH [OF b1 this] tc show ?case by simp
qed

lemma feature_loop_step:
  assumes "best_among srt (Arr2 d rows) y cands b"
    and "\<forall>i\<in>set is. \<forall>s\<in>{- 1, 1}. \<exists>r. find_threshold_by srt (column rows i) y s = Inr r"
  shows "\<exists>b'. feature_loop srt rows y is b = Inr b'
           \<and> best_among srt (Arr2 d rows) y
                (cands @ concat (map (\<lambda>i. map (Pair i) [- 1, 1]) is)) b'"
  using assms
proof (induction "is" arbitrary: cands b)
  case Nil
  then show ?case by simp
next
  case (Cons i "is")
  from Cons.prems(2)
  have "\<forall>s\<in>set [- 1, 1]. \<exists>r. find_threshold_by srt (feature (Arr2 d rows) i) y s = Inr r"
    by simp
  from sign_loop_step [OF Cons.prems(1) this] obtain b1 where
    sl: "sign_loop srt (column rows i) y i [- 1, 1] b = Inr b1"
    and b1: "best_among srt (Arr2 d rows) y (cands @ map (Pair i) [- 1, 1]) b1" by auto
  from Cons.prems(2)
  have "\<forall>i\<in>set is. \<forall>s\<in>{- 1, 1}. \<exists>r. find_threshold_by srt (column rows i) y s = Inr r"
    by simp
  from Cons.IH [OF b1 this] sl show ?case by simp
qed

lemma best_among_init: "best_among srt X y [] init_best"
  by (simp add: best_among_def)

lemma fit_search_best:
  assumes "valid_sorter srt" and "valid_input X y"
  shows "\<exists>b. fit_search srt X y = Inr b
           \<and> best_among srt X y (concat (map (\<lambda>i. map (Pair i) [- 1, 1]) [0..<ncols X])) b"
proof (cases X)
  case (Arr1 xs)
  with assms(2) have len: "length xs = length y" and vl: "valid_labels y"
    by (simp_all add: valid_input_def)
  have "\<forall>s\<in>set [- 1, 1]. \<exists>r. find_threshold_by srt (feature X 0) y s = Inr r"
    using find_threshold_by_total [OF assms(1) len vl] Arr1 by simp
  from sign_loop_step [OF best_among_init this] Arr1
  show ?thesis by (simp add: fit_search_def)
next
  case (Arr2 d rows)
  with assms(2) have len: "length rows = length y" and vl: "valid_labels y"
    by (simp_all add: valid_input_def)
  have "length (column rows i) = length y" for i using len by (simp add: column_def)
  from find_threshold_by_total [OF assms(1) this vl]
  have "\<forall>i\<in>set [0..<d]. \<forall>s\<in>{- 1, 1}. \<exists>r. find_threshold_by srt (column rows i) y s = Inr r"
    by simp
  from feature_loop_step [OF best_among_init this, of d] Arr2
  show ?thesis by (simp add: fit_search_def)
qed

lemma candidates_set:
  "set (concat (map (\<lambda>i. map (Pair i) [- 1, 1]) [0..<n])) = {0..<n} \<times> {- 1, 1 :: int}"
  by auto

lemma fit_search_result:
  assumes "valid_sorter srt" and "valid_input X y"
  shows "\<exists>j thr e s. fit_search srt X y = Inr (j, Some thr, Fin e, s)
           \<and> j < ncols X \<and> (s = 1 \<or> s = - 1)
           \<and> find_threshold_by srt (feature X j) y s = Inr (thr, e)
           \<and> (\<forall>i<ncols X. \<forall>s'\<in>{- 1, 1}. \<forall>thr' e'.
                 find_threshold_by srt (feature X i) y s' = Inr (thr', e') \<longrightarrow> e \<le> e')"
proof -
  let ?cands = "concat (map (\<lambda>i. map (Pair i) [- 1, 1 :: int]) [0..<ncols X])"
  from assms(2) have "0 < ncols X" by (cases X) (simp_all add: valid_input_def)
  then have ne: "?cands \<noteq> []" by (cases "ncols X") (simp_all add: upt_rec)
  obtain b where fs: "fit_search srt X y = Inr b" and ba: "best_among srt X y ?cands b"
    using fit_search_best [OF assms] by blast
  obtain j t l s where b: "b = (j, t, l, s)" by (cases b)
  from ba ne have "case b of (j, t, l, s) \<Rightarrow>
        \<exists>thr e. t = Some thr \<and> l = Fin e \<and> (j, s) \<in> set ?cands
          \<and> find_threshold_by srt (feature X j) y s = Inr (thr, e)
          \<and> (\<forall>(i, s')\<in>set ?cands. \<forall>thr' e'.
                find_threshold_by srt (feature X i) y s' = Inr (thr', e') \<longrightarrow> e \<le> e')"
    unfolding best_among_def by (simp only: if_False)
  then obtain thr e where t: "t = Some thr" and l: "l = Fin e"
    and mem: "(j, s) \<in> set ?cands"
    and ft: "find_threshold_by srt (feature X j) y s = Inr (thr, e)"
    and mn: "\<forall>(i, s')\<in>set ?cands. \<forall>thr' e'.
                find_threshold_by srt (feature X i) y s' = Inr (thr', e') \<longrightarrow> e \<le> e'"
    unfolding b prod.case by blast
  from mem have js: "j < ncols X" "s = 1 \<or> s = - 1" unfolding candidates_set by auto
  from mn have "\<forall>i<ncols X. \<forall>s'\<in>{- 1, 1}. \<forall>thr' e'.
                 find_threshold_by srt (feature X i) y s' = Inr (thr', e') \<longrightarrow> e \<le> e'"
    unfolding candidates_set by auto
  with fs b t l js ft show ?thesis by blast
qed

subsection \<open>The order among equal values does not matter\<close>













subsection \<open>The rounding function\<close>

text \<open>
  \<open>ilog2\<close> is the exponent, \<open>round_half_even\<close> is within one half of its argument, and \<open>f64 x\<close>
  is a multiple of the spacing \<open>2\<^sup>e\<^sup>-\<^sup>5\<^sup>2\<close> of the doubles around \<open>x\<close>, with at most 53 bits, at most
  half a spacing away from \<open>x\<close>.
\<close>

lemma pow2_pos: "0 < pow2 e"
  by (simp add: pow2_def)

lemma ilog2_bounds:
  assumes "0 < x"
  shows "pow2 (ilog2 x) \<le> x" and "x < pow2 (ilog2 x + 1)"
proof -
  have both: "pow2 (ilog2 x) \<le> x \<and> x < pow2 (ilog2 x + 1)"
  proof (cases "1 \<le> x")
    case True
    define n where "n = \<lfloor>x\<rfloor>"
    from True have n: "0 < n" by (simp add: n_def)
    then have k: "1 \<le> bitlen n" by (simp add: bitlen_alt_def)
    from bitlen_bounds [OF n] have lo: "2 ^ nat (bitlen n - 1) \<le> n" and hi: "n < 2 ^ nat (bitlen n)"
      by simp_all
    from lo have "(2::real) ^ nat (bitlen n - 1) \<le> of_int n"
      by (metis of_int_le_iff of_int_numeral of_int_power)
    also have "\<dots> \<le> x" by (simp add: n_def)
    finally have a: "(2::real) ^ nat (bitlen n - 1) \<le> x" .
    from hi have "n + 1 \<le> 2 ^ nat (bitlen n)" by simp
    then have "of_int (n + 1) \<le> (2::real) ^ nat (bitlen n)"
      by (metis of_int_le_iff of_int_numeral of_int_power)
    moreover have "x < of_int (n + 1)" by (simp add: n_def)
    ultimately have b: "x < (2::real) ^ nat (bitlen n)" by simp
    from True k a b show ?thesis
      by (simp add: ilog2_def pow2_def n_def [symmetric])
  next
    case False
    define m where "m = \<lceil>1 / x\<rceil> - 1"
    from False assms have "1 < 1 / x" by simp
    then have m: "0 < m" unfolding m_def by linarith
    then have k: "1 \<le> bitlen m" by (simp add: bitlen_alt_def)
    from bitlen_bounds [OF m] have lo: "2 ^ nat (bitlen m - 1) \<le> m" and hi: "m < 2 ^ nat (bitlen m)"
      by simp_all
    from hi have "m + 1 \<le> 2 ^ nat (bitlen m)" by simp
    then have "of_int (m + 1) \<le> (2::real) ^ nat (bitlen m)"
      by (metis of_int_le_iff of_int_numeral of_int_power)
    moreover have "1 / x \<le> of_int (m + 1)" unfolding m_def by simp
    ultimately have "1 / x \<le> 2 ^ nat (bitlen m)" by simp
    with assms have a: "1 / 2 ^ nat (bitlen m) \<le> x"
      by (simp add: field_simps)
    from lo have "(2::real) ^ nat (bitlen m - 1) \<le> of_int m"
      by (metis of_int_le_iff of_int_numeral of_int_power)
    moreover have "of_int m < 1 / x" unfolding m_def by linarith
    ultimately have "2 ^ nat (bitlen m - 1) < 1 / x" by (rule le_less_trans)
    with assms have b: "x < 1 / 2 ^ nat (bitlen m - 1)"
      by (simp add: field_simps)
    have c: "pow2 (- bitlen m + 1) = 1 / 2 ^ nat (bitlen m - 1)"
      using k by (cases "bitlen m = 1") (simp_all add: pow2_def)
    have d: "pow2 (- bitlen m) = 1 / 2 ^ nat (bitlen m)"
      using k by (simp add: pow2_def)
    from False a b c d show ?thesis
      by (simp add: ilog2_def m_def [symmetric])
  qed
  from both show "pow2 (ilog2 x) \<le> x" and "x < pow2 (ilog2 x + 1)" by simp_all
qed

lemma round_half_even_near: "\<bar>of_int (round_half_even m) - m\<bar> \<le> 1 / 2"
  unfolding round_half_even_def Let_def by (auto; linarith)

lemma pow2_add: "pow2 (a + b) = pow2 a * pow2 b"
proof -
  have "pow2 e = 2 powi e" for e
    by (simp add: pow2_def power_int_def field_simps)
  then show ?thesis by (simp add: power_int_add)
qed

lemma f64_near:
  assumes "x \<noteq> 0"
  shows "\<exists>k. f64 x = of_int k * pow2 (ilog2 \<bar>x\<bar> - 52) \<and> \<bar>k\<bar> \<le> 2 ^ 53
          \<and> \<bar>f64 x - x\<bar> \<le> pow2 (ilog2 \<bar>x\<bar> - 52) / 2"
proof -
  define q where "q = pow2 (ilog2 \<bar>x\<bar> - 52)"
  define k where "k = round_half_even (x / q)"
  have q: "0 < q" by (simp add: q_def pow2_pos)
  have fx: "f64 x = of_int k * q" using assms by (simp add: f64_def q_def k_def Let_def)
  have near: "\<bar>of_int k - x / q\<bar> \<le> 1 / 2" unfolding k_def by (rule round_half_even_near)
  have "f64 x - x = (of_int k - x / q) * q"
    using q by (simp add: fx field_simps)
  then have "\<bar>f64 x - x\<bar> = \<bar>of_int k - x / q\<bar> * q"
    using q by (simp only: abs_mult abs_of_pos)
  also have "\<dots> \<le> 1 / 2 * q" using near q by (intro mult_right_mono) simp_all
  finally have err: "\<bar>f64 x - x\<bar> \<le> q / 2" by simp
  from assms have "0 < \<bar>x\<bar>" by simp
  have "ilog2 \<bar>x\<bar> - 52 + 53 = ilog2 \<bar>x\<bar> + 1" by simp
  with ilog2_bounds(2) [OF \<open>0 < \<bar>x\<bar>\<close>]
  have "\<bar>x\<bar> < pow2 (ilog2 \<bar>x\<bar> - 52 + 53)" by (simp only:)
  then have "\<bar>x\<bar> < q * 2 ^ 53" unfolding pow2_add q_def by (simp add: pow2_def)
  then have "\<bar>x / q\<bar> < 2 ^ 53" using q by (simp add: field_simps)
  with near have "\<bar>real_of_int k\<bar> < 2 ^ 53 + 1" by linarith
  then have "real_of_int \<bar>k\<bar> < real_of_int (2 ^ 53 + 1)" by simp
  then have "\<bar>k\<bar> < 2 ^ 53 + 1" by (simp only: of_int_less_iff)
  then have "\<bar>k\<bar> \<le> 2 ^ 53" by simp
  with fx err show ?thesis unfolding q_def by blast
qed

section \<open>The winning index\<close>

text \<open>
  Claim C6. On a valid input the index that \<open>argmin\<close> selects lies in the array and is
  either 0 or an index whose sorted value differs from the previous one. Every other index
  carries the sentinel \<open>max(loss) + 1\<close>, which is strictly larger than the cost at index 0.
\<close>

theorem argmin_skips_ties:
  assumes "valid_labels (map snd vl)"
  shows "let values = map fst vl; labels = normalise (map snd vl);
             index = sweep_index values labels sign;
             loss = fst (sweep values labels sign)
         in index < length vl
            \<and> (index = 0 \<or> values ! (index - 1) \<noteq> values ! index)
            \<and> loss ! 0 < np_max loss + 1
            \<and> (\<forall>i<length vl. \<not> (i = 0 \<or> values ! (i - 1) \<noteq> values ! i) \<longrightarrow>
                  masked_loss values labels sign ! i = np_max loss + 1)"
proof -
  let ?vs = "map fst vl" and ?labels = "normalise (map snd vl)"
  from assms have len: "length ?vs = length ?labels" and ne: "?labels \<noteq> []"
    by (simp_all add: valid_labels_def normalise_def)
  obtain loss ift where sw: "sweep ?vs ?labels sign = (loss, ift)"
    by (cases "sweep ?vs ?labels sign")
  note mp = masked_loss_props [OF len ne sw]
  note ix = sweep_index_first_time [OF len ne, of sign]
  have n: "length ?labels = length vl" by (simp add: normalise_def)
  have "loss ! 0 < np_max loss + 1" using ne by (intro mp(4)) simp
  moreover have "\<forall>i<length vl. \<not> (i = 0 \<or> ?vs ! (i - 1) \<noteq> ?vs ! i) \<longrightarrow>
                  masked_loss ?vs ?labels sign ! i = np_max loss + 1"
    using mp(3) n by metis
  ultimately show ?thesis using ix sw n by (simp add: Let_def)
qed

theorem argmin_skips_ties_witness:
  "sweep_index [1, 1, 2] (normalise [1, - 1, 1]) 1 = 0
   \<and> masked_loss [1, 1, 2] (normalise [1, - 1, 1]) 1 ! 1
       = np_max (fst (sweep [1, 1, 2] (normalise [1, - 1, 1]) 1)) + 1"
proof -
  have v: "valid_labels (map snd [(1, 1), (1, - 1), (2, 1 :: real)])"
    by (simp add: valid_labels_def)
  have "sweep_index [1, 1, 2] (normalise [1, - 1, 1]) 1 = 0" by code_simp
  then show ?thesis
    using argmin_skips_ties [OF v, of 1] by (simp add: Let_def)
qed


text \<open>
  Claim C2, amended. With at least two samples, when the winning index is the last one:
  for sign +1 a positive last label gives the last value as threshold with the accumulated
  error unchanged, and a negative last label gives \<open>+\<infinity>\<close> with the label itself, a negative
  number, added to the error, which so goes down by the weight of that sample; for sign -1
  the same with the sign of the label flipped.
\<close>

theorem last_index_rule:
  assumes "valid_labels (map snd vl)"
    and "sweep_index (map fst vl) (normalise (map snd vl)) sign = length vl - 1"
    and "2 \<le> length vl"
  shows "let values = map fst vl; labels = normalise (map snd vl); n = length vl;
             acc = fst (sweep values labels sign) ! (n - 1)
         in (sign = 1 \<and> 0 < labels ! (n - 1) \<longrightarrow>
               find_threshold_sorted vl sign = Inr (Fin (values ! (n - 1)), acc))
          \<and> (sign = 1 \<and> labels ! (n - 1) < 0 \<longrightarrow>
               find_threshold_sorted vl sign = Inr (PosInf, acc + labels ! (n - 1)))
          \<and> (sign = - 1 \<and> labels ! (n - 1) < 0 \<longrightarrow>
               find_threshold_sorted vl sign = Inr (Fin (values ! (n - 1)), acc))
          \<and> (sign = - 1 \<and> 0 < labels ! (n - 1) \<longrightarrow>
               find_threshold_sorted vl sign = Inr (PosInf, acc - labels ! (n - 1)))"
proof -
  define vs where "vs = map fst vl"
  define labels where "labels = normalise (map snd vl)"
  define n where "n = length vl"
  define m where "m = masked_loss vs labels sign"
  from assms(1) have len: "length vs = length labels" and ne: "labels \<noteq> []"
    by (simp_all add: valid_labels_def normalise_def vs_def labels_def)
  define loss where "loss = fst (sweep vs labels sign)"
  have sw: "sweep vs labels sign = (loss, snd (sweep vs labels sign))"
    by (simp add: loss_def)
  note mp = masked_loss_props [OF len ne sw]
  note ix = sweep_index_first_time [OF len ne, of sign]
  have nl: "length labels = n" by (simp add: normalise_def labels_def n_def)
  from assms(2) have si: "sweep_index vs labels sign = n - 1"
    by (simp add: vs_def labels_def n_def)
  from assms(3) have idx: "n - 1 \<noteq> 0" "n - 1 < length labels" using nl by (simp_all add: n_def)
  from ix(2) si idx(1) have ft: "n - 1 = 0 \<or> vs ! (n - 1 - 1) \<noteq> vs ! (n - 1)"
    by simp
  have "masked_loss vs labels sign ! (n - 1) = loss ! (n - 1)"
    using idx(2) ft by (rule mp(2))
  then have mn: "m ! (n - 1) = loss ! (n - 1)" by (simp add: m_def)
  have res: "find_threshold_sorted vl sign = Inr (pick_threshold vs labels sign m (n - 1))"
    using find_threshold_sorted_valid [OF assms(1), of sign] si
    by (simp add: vs_def labels_def m_def)
  have pk: "pick_threshold vs labels sign m (n - 1) =
         (if sign = 1 then
           (if labels ! (n - 1) > 0 then (Fin (vs ! (n - 1)), loss ! (n - 1))
            else (PosInf, loss ! (n - 1) + labels ! (n - 1)))
         else
           (if labels ! (n - 1) > 0 then (PosInf, loss ! (n - 1) - labels ! (n - 1))
            else (Fin (vs ! (n - 1)), loss ! (n - 1))))"
    using idx(1) nl mn by (simp add: pick_threshold_def)
  have "(sign = 1 \<and> 0 < labels ! (n - 1) \<longrightarrow>
               find_threshold_sorted vl sign = Inr (Fin (vs ! (n - 1)), loss ! (n - 1)))
          \<and> (sign = 1 \<and> labels ! (n - 1) < 0 \<longrightarrow>
               find_threshold_sorted vl sign = Inr (PosInf, loss ! (n - 1) + labels ! (n - 1)))
          \<and> (sign = - 1 \<and> labels ! (n - 1) < 0 \<longrightarrow>
               find_threshold_sorted vl sign = Inr (Fin (vs ! (n - 1)), loss ! (n - 1)))
          \<and> (sign = - 1 \<and> 0 < labels ! (n - 1) \<longrightarrow>
               find_threshold_sorted vl sign = Inr (PosInf, loss ! (n - 1) - labels ! (n - 1)))"
    unfolding res pk by auto
  then show ?thesis
    unfolding Let_def vs_def [symmetric] labels_def [symmetric] n_def [symmetric]
      loss_def [symmetric] .
qed

theorem last_index_rule_witness:
  "find_threshold_sorted [(1, - 1), (2, - 1)] 1 = Inr (PosInf, 0)"
proof -
  let ?vl = "[(1, - 1), (2, - 1 :: real)]"
  have v: "valid_labels (map snd ?vl)" by (simp add: valid_labels_def)
  have i: "sweep_index (map fst ?vl) (normalise (map snd ?vl)) 1 = length ?vl - 1"
    by code_simp
  have l: "2 \<le> length ?vl" by simp
  have a: "fst (sweep (map fst ?vl) (normalise (map snd ?vl)) 1) ! (length ?vl - 1)
             + normalise (map snd ?vl) ! (length ?vl - 1) = 0"
    by code_simp
  have b: "normalise (map snd ?vl) ! (length ?vl - 1) < 0" by code_simp
  from last_index_rule [OF v i l] a b show ?thesis by (simp add: Let_def)
qed

text \<open>
  Claim C2 as it stands fails in two places where the code is as designed. With a single
  sample, index 0 is also the last index and line 135 answers first: for a positive label
  and sign +1 the threshold is \<open>-\<infinity>\<close>, not the last value (the split and the error 0 are the
  same). With two samples of label \<open>-1\<close> and sign +1 the last index wins with accumulated
  error 1/2; line 145 adds the last label, the negative number \<open>-1/2\<close>, so the returned error
  is 0, the error of the cut above every sample, and not 1/2 plus the weight 1/2 of that
  sample.
\<close>

theorem last_index_rule_as_stated_fails:
  "sweep_index (map fst [(1, 1)]) (normalise (map snd [(1, 1)])) 1
     = length [(1 :: real, 1 :: real)] - 1
   \<and> 0 < normalise (map snd [(1, 1)]) ! (length [(1 :: real, 1 :: real)] - 1)
   \<and> find_threshold_sorted [(1, 1)] 1 = Inr (NegInf, 0)
   \<and> find_threshold_sorted [(1, 1)] 1 \<noteq>
       Inr (Fin (map fst [(1, 1)] ! 0), fst (sweep [1] (normalise [1]) 1) ! 0)
   \<and> sweep_index (map fst [(1, - 1), (2, - 1)]) (normalise (map snd [(1, - 1), (2, - 1)])) 1
     = length [(1 :: real, - 1 :: real), (2, - 1)] - 1
   \<and> normalise (map snd [(1, - 1), (2, - 1)]) ! 1 = - 1 / 2
   \<and> fst (sweep [1, 2] (normalise [- 1, - 1]) 1) ! 1 = 1 / 2
   \<and> find_threshold_sorted [(1, - 1), (2, - 1)] 1 = Inr (PosInf, 0)
   \<and> find_threshold_sorted [(1, - 1), (2, - 1)] 1 \<noteq>
       Inr (PosInf, fst (sweep [1, 2] (normalise [- 1, - 1]) 1) ! 1
                      + \<bar>normalise [- 1, - 1] ! 1\<bar>)"
  by code_simp

section \<open>The returned pair\<close>

text \<open>
  Claim C5 fails on the code. The docstring promises an error between 0 and 1, but the
  source computes in double precision: on the values \<open>[0,1,2,3]\<close> with the labels
  \<open>[-0.1,-0.2,-0.3,-0.4]\<close> (a valid input, the doubles nearest to these decimals) and sign +1
  the array \<open>loss\<close> is \<open>[1.0, 0.9, 0.7, 0.39999999999999997]\<close>, the last index wins, and the
  returned error is \<open>loss[3] + labels[3] = -2\<^sup>-\<^sup>5\<^sup>4\<close>, about \<open>-5.55e-17\<close>, which is negative.
\<close>

theorem find_threshold_f64_leaves_unit_interval:
  "valid_labels [f64 (- 1 / 10), f64 (- 2 / 10), f64 (- 3 / 10), f64 (- 4 / 10)]
   \<and> find_threshold_f64 [0, 1, 2, 3]
         [f64 (- 1 / 10), f64 (- 2 / 10), f64 (- 3 / 10), f64 (- 4 / 10)] 1
       = Inr (PosInf, - 1 / 2 ^ 54)
   \<and> - 1 / 2 ^ 54 < (0 :: real)"
  by code_simp

text \<open>
  The defect is one of rounding only. In exact arithmetic, on a valid input (as many values
  as labels, at least one sample, positive total weight) and for either sign, the search
  returns a pair whose error lies between 0 and 1, whatever order the sorting routine gives
  to equal values.
\<close>

theorem exact_error_in_unit_interval:
  assumes "valid_sorter srt" and "length values = length labels" and "valid_labels labels"
    and "sign = 1 \<or> sign = - 1"
  shows "\<exists>thr err. find_threshold_by srt values labels sign = Inr (thr, err)
           \<and> 0 \<le> err \<and> err \<le> 1"
proof -
  have "valid_labels (map snd (srt (zip values labels)))"
    using sorter_labels(1) [OF assms(1,2)] assms(3) by (rule valid_labels_mset)
  from find_threshold_sorted_bounds [OF this assms(4)] assms(2)
  show ?thesis by (simp add: find_threshold_by_def)
qed

theorem exact_error_in_unit_interval_example:
  "\<exists>thr err. find_threshold [1, 2, 3] [- 1, 1, - 3] 1 = Inr (thr, err) \<and> 0 \<le> err \<and> err \<le> 1"
proof -
  have "valid_labels [- 1, 1, - 3]" by (simp add: valid_labels_def)
  from exact_error_in_unit_interval [OF valid_sorter_sort_key _ this, of "[1, 2, 3]" 1]
  show ?thesis by (simp add: find_threshold_def)
qed

text \<open>
  Claim C9. A threshold returned by \<open>_find_threshold\<close> is \<open>-\<infinity>\<close>, \<open>+\<infinity>\<close> or one of the entries
  of the input array of values.
\<close>

theorem finite_threshold_is_a_value:
  assumes "valid_sorter srt"
    and "find_threshold_by srt values labels sign = Inr (thr, err)"
  shows "thr = NegInf \<or> thr = PosInf \<or> (\<exists>v\<in>set values. thr = Fin v)"
proof -
  let ?vl = "srt (zip values labels)"
  let ?vs = "map fst ?vl" and ?ls = "normalise (map snd ?vl)"
  from assms(2) have len: "length values = length labels"
    and fs: "find_threshold_sorted ?vl sign = Inr (thr, err)"
    by (auto simp: find_threshold_by_def split: if_splits)
  from fs have "?vl \<noteq> []" and "sum_list (map abs (map snd ?vl)) \<noteq> 0"
    by (auto simp: find_threshold_sorted_def Let_def split: if_splits)
  moreover have "0 \<le> sum_list (map abs (map snd ?vl))"
    by (rule sum_list_nonneg) auto
  ultimately have v: "valid_labels (map snd ?vl)" by (simp add: valid_labels_def)
  then have l2: "length ?vs = length ?ls" and ne: "?ls \<noteq> []"
    by (simp_all add: valid_labels_def normalise_def)
  define ix where "ix = sweep_index ?vs ?ls sign"
  have "ix < length ?vs" using sweep_index_first_time(1) [OF l2 ne, of sign] l2
    by (simp add: ix_def)
  then have "?vs ! ix \<in> set ?vs" by (rule nth_mem)
  with sorter_labels(2) [OF assms(1) len] have mem: "?vs ! ix \<in> set values" by blast
  from fs find_threshold_sorted_valid [OF v, of sign]
  have "thr = fst (pick_threshold ?vs ?ls sign (masked_loss ?vs ?ls sign) ix)"
    by (simp add: ix_def)
  then have "thr = NegInf \<or> thr = PosInf \<or> thr = Fin (?vs ! ix)"
    by (auto simp: pick_threshold_def split: if_splits)
  with mem show ?thesis by blast
qed

theorem finite_threshold_is_a_value_witness:
  "find_threshold_by (sort_key fst) [4, 1, 3, 2] [1, - 1, 1, - 1] 1 = Inr (Fin 3, 0)
   \<and> (\<exists>v\<in>set [4, 1, 3, 2]. Fin 3 = Fin v)"
proof -
  have r: "find_threshold_by (sort_key fst) [4, 1, 3, 2] [1, - 1, 1, - 1] 1 = Inr (Fin 3, 0)"
    by code_simp
  from finite_threshold_is_a_value [OF valid_sorter_sort_key r] r show ?thesis by simp
qed

section \<open>Prediction\<close>

text \<open>
  Claim C4. For a fitted model and a two-dimensional input whose columns include the
  fitted feature index, \<open>predict\<close> returns one entry per row, and entry \<open>i\<close> is the
  fitted sign when \<open>X[i, j] \<ge> threshold\<close> and the opposite sign otherwise.
\<close>

theorem predict_rule:
  assumes "threshold_attr self = Some thr" and "j_attr self = Some j"
    and "sign_attr self = Some s" and "j < d"
  shows "\<exists>ys. predict self (Arr2 d rows) = Inr ys \<and> length ys = length rows \<and>
           (\<forall>i<length rows. ys ! i = (if ge_thr (rows ! i ! j) thr then s else - s))"
  using assms by (simp add: predict_def)

theorem predict_rule_witness:
  "\<exists>ys. predict \<lparr>threshold_attr = Some (Fin 3), j_attr = Some 1, sign_attr = Some 1\<rparr>
          (Arr2 2 [[0, 5], [0, 3], [9, 2]]) = Inr ys
        \<and> length ys = 3 \<and> ys ! 0 = 1 \<and> ys ! 1 = 1 \<and> ys ! 2 = - 1"
proof -
  let ?self = "\<lparr>threshold_attr = Some (Fin 3), j_attr = Some 1, sign_attr = Some 1\<rparr>"
  let ?rows = "[[0, 5], [0, 3], [9, 2 :: real]]"
  obtain ys where ys: "predict ?self (Arr2 2 ?rows) = Inr ys" "length ys = length ?rows"
    and rule: "\<forall>i<length ?rows. ys ! i = (if ge_thr (?rows ! i ! 1) (Fin 3) then 1 else - 1)"
    using predict_rule [of ?self "Fin 3" 1 1 2 ?rows] by auto
  from rule have "ys ! 0 = 1" "ys ! 1 = 1" "ys ! 2 = - 1"
    by simp_all
  with ys show ?thesis by simp
qed

text \<open>
  Claim C10. \<open>fit\<close> accepts a one-dimensional array of values and stores the feature index
  0, but \<open>predict\<close> on a one-dimensional array fails at the column indexing, whereas it
  returns predictions on every matrix with at least one column.
\<close>

theorem predict_needs_two_dimensions:
  assumes "valid_sorter srt" and "valid_input (Arr1 xs) y"
  shows "\<exists>st. fit_by srt self (Arr1 xs) y = Inr st \<and> j_attr st = Some 0
           \<and> (\<forall>zs. predict st (Arr1 zs) = Inl IndexError)
           \<and> (\<forall>d rows. 0 < d \<longrightarrow> (\<exists>ys. predict st (Arr2 d rows) = Inr ys))"
proof -
  obtain j thr e s where fs: "fit_search srt (Arr1 xs) y = Inr (j, Some thr, Fin e, s)"
    and j: "j < ncols (Arr1 xs)"
    using fit_search_result [OF assms] by blast
  define st where
    "st = self\<lparr>threshold_attr := Some thr, j_attr := Some j, sign_attr := Some s\<rparr>"
  from fs have "fit_by srt self (Arr1 xs) y = Inr st" by (simp add: fit_by_def st_def)
  moreover from j have j0: "j_attr st = Some 0" by (simp add: st_def)
  moreover have "\<forall>zs. predict st (Arr1 zs) = Inl IndexError"
    using j0 by (simp add: predict_def)
  moreover have "\<forall>d rows. 0 < d \<longrightarrow> (\<exists>ys. predict st (Arr2 d rows) = Inr ys)"
    using j0 by (simp add: predict_def st_def)
  ultimately show ?thesis by blast
qed

theorem predict_needs_two_dimensions_witness:
  "\<exists>st. fit (init_stump) (Arr1 [1, 2, 3, 4]) [- 1, - 1, 1, 1] = Inr st
     \<and> predict st (Arr1 [1, 2, 3, 4]) = Inl IndexError
     \<and> (\<exists>ys. predict st (Arr2 1 [[1], [2], [3], [4]]) = Inr ys)"
proof -
  have v: "valid_input (Arr1 [1, 2, 3, 4]) [- 1, - 1, 1, 1]"
    by (simp add: valid_input_def valid_labels_def)
  obtain st where "fit_by (sort_key fst) init_stump (Arr1 [1, 2, 3, 4]) [- 1, - 1, 1, 1] = Inr st"
    and "\<forall>zs. predict st (Arr1 zs) = Inl IndexError"
    and "\<forall>d rows. 0 < d \<longrightarrow> (\<exists>ys. predict st (Arr2 d rows) = Inr ys)"
    using predict_needs_two_dimensions [OF valid_sorter_sort_key v, of init_stump] by blast
  then have "fit init_stump (Arr1 [1, 2, 3, 4]) [- 1, - 1, 1, 1] = Inr st"
    and "predict st (Arr1 [1, 2, 3, 4]) = Inl IndexError"
    and "\<exists>ys. predict st (Arr2 1 [[1], [2], [3], [4]]) = Inr ys"
    by (simp_all add: fit_def)
  then show ?thesis by blast
qed

section \<open>Fitting\<close>

text \<open>
  Claim C3. On a valid input \<open>fit\<close> ends with a threshold that is not \<open>None\<close>; the stored
  feature, threshold and sign are those of one call of \<open>_find_threshold\<close>, whose error is at
  most the error of every feature with sign +1 and of every feature with sign -1; and a
  first candidate always replaces the initial values.
\<close>

theorem fit_keeps_minimum:
  assumes "valid_sorter srt" and "valid_input X y"
  shows "\<exists>j thr e s.
           fit_search srt X y = Inr (j, Some thr, Fin e, s)
         \<and> fit_by srt self X y
             = Inr (self\<lparr>threshold_attr := Some thr, j_attr := Some j, sign_attr := Some s\<rparr>)
         \<and> j < ncols X \<and> (s = 1 \<or> s = - 1)
         \<and> find_threshold_by srt (feature X j) y s = Inr (thr, e)
         \<and> (\<forall>i<ncols X. \<forall>thr' e'.
               find_threshold_by srt (feature X i) y 1 = Inr (thr', e') \<longrightarrow> e \<le> e')
         \<and> (\<forall>i<ncols X. \<forall>thr' e'.
               find_threshold_by srt (feature X i) y (- 1) = Inr (thr', e') \<longrightarrow> e \<le> e')
         \<and> (\<forall>vec i sg thr' e'. find_threshold_by srt vec y sg = Inr (thr', e') \<longrightarrow>
               try_candidate srt vec y i sg init_best = Inr (i, Some thr', Fin e', sg))"
proof -
  obtain j thr e s where fs: "fit_search srt X y = Inr (j, Some thr, Fin e, s)"
    and js: "j < ncols X" "s = 1 \<or> s = - 1"
    and ft: "find_threshold_by srt (feature X j) y s = Inr (thr, e)"
    and mn: "\<forall>i<ncols X. \<forall>s'\<in>{- 1, 1}. \<forall>thr' e'.
                 find_threshold_by srt (feature X i) y s' = Inr (thr', e') \<longrightarrow> e \<le> e'"
    using fit_search_result [OF assms] by blast
  from fs have fb: "fit_by srt self X y
      = Inr (self\<lparr>threshold_attr := Some thr, j_attr := Some j, sign_attr := Some s\<rparr>)"
    by (simp add: fit_by_def)
  from mn have m1: "\<forall>i<ncols X. \<forall>thr' e'.
               find_threshold_by srt (feature X i) y 1 = Inr (thr', e') \<longrightarrow> e \<le> e'"
    and m2: "\<forall>i<ncols X. \<forall>thr' e'.
               find_threshold_by srt (feature X i) y (- 1) = Inr (thr', e') \<longrightarrow> e \<le> e'"
    by simp_all
  have first: "\<forall>vec i sg thr' e'. find_threshold_by srt vec y sg = Inr (thr', e') \<longrightarrow>
               try_candidate srt vec y i sg init_best = Inr (i, Some thr', Fin e', sg)"
    by (simp add: try_candidate_first)
  from fs fb js ft m1 m2 first show ?thesis by blast
qed

theorem fit_keeps_minimum_witness:
  "\<exists>j thr e s.
     fit_search (sort_key fst) (Arr2 2 [[3, 1], [3, 2], [3, 3], [3, 4]]) [- 1, - 1, 1, 1]
       = Inr (j, Some thr, Fin e, s)
     \<and> j < 2
     \<and> (\<forall>thr' e'. find_threshold_by (sort_key fst) [3, 3, 3, 3] [- 1, - 1, 1, 1] 1
          = Inr (thr', e') \<longrightarrow> e \<le> e')"
proof -
  let ?X = "Arr2 2 [[3, 1], [3, 2], [3, 3], [3, 4]]"
  let ?y = "[- 1, - 1, 1, 1 :: real]"
  have v: "valid_input ?X ?y" by (simp add: valid_input_def valid_labels_def)
  have c: "feature ?X 0 = [3, 3, 3, 3]" by (simp add: column_def)
  obtain j thr e s where fs: "fit_search (sort_key fst) ?X ?y = Inr (j, Some thr, Fin e, s)"
    and j: "j < ncols ?X"
    and mn: "\<forall>i<ncols ?X. \<forall>thr' e'.
               find_threshold_by (sort_key fst) (feature ?X i) ?y 1 = Inr (thr', e') \<longrightarrow> e \<le> e'"
    using fit_keeps_minimum [OF valid_sorter_sort_key v, of init_stump] by blast
  have pos: "0 < ncols ?X" by simp
  from j have j2: "j < 2" by simp
  from mn pos have "\<forall>thr' e'. find_threshold_by (sort_key fst) (feature ?X 0) ?y 1
          = Inr (thr', e') \<longrightarrow> e \<le> e'"
    by blast
  with fs j2 show ?thesis unfolding c by blast
qed



section \<open>Examples\<close>

text \<open>
  Claim C7. Fitting the separable data with values \<open>[1,2,3,4]\<close> and labels \<open>[-1,-1,1,1]\<close>,
  given as a one-dimensional array or as a matrix with one column, ends with minimal
  error 0, threshold 3 and sign +1.
\<close>

theorem fit_separable_example:
  "fit_search (sort_key fst) (Arr1 [1, 2, 3, 4]) [- 1, - 1, 1, 1]
     = Inr (0, Some (Fin 3), Fin 0, 1)
   \<and> fit init_stump (Arr1 [1, 2, 3, 4]) [- 1, - 1, 1, 1]
     = Inr \<lparr>threshold_attr = Some (Fin 3), j_attr = Some 0, sign_attr = Some 1\<rparr>
   \<and> fit init_stump (Arr2 1 [[1], [2], [3], [4]]) [- 1, - 1, 1, 1]
     = Inr \<lparr>threshold_attr = Some (Fin 3), j_attr = Some 0, sign_attr = Some 1\<rparr>"
  by code_simp

text \<open>
  Claim C1 fails on the code. On the values \<open>[1,2,3]\<close> with labels \<open>[-1,1,-3]\<close> and sign +1
  the search returns the threshold 2 with error 3/5, while the threshold \<open>+\<infinity>\<close>, one of the
  candidates, has error 1/5: the cut above every sample is only looked at when the sweep's
  minimum falls on the last index.
\<close>

theorem find_threshold_misses_upper_cut:
  "find_threshold [1, 2, 3] [- 1, 1, - 3] 1 = Inr (Fin 2, 3 / 5)
   \<and> PosInf \<in> set (candidates [1, 2, 3])
   \<and> misclass [1, 2, 3] [- 1, 1, - 3] 1 PosInf = 1 / 5"
  by code_simp

end
